theory Spec2Isabelle
  imports Complex_Main
begin

section \<open>Data model of framefield.py\<close>

text \<open>
  Vectors are numpy arrays of shape (3,) and matrices arrays of shape (3,3), given by
  their rows. Floating-point numbers are idealised as reals: every arithmetic
  operation of the source is the exact operation here.
\<close>

type_synonym vec = "real \<times> real \<times> real"
type_synonym mat = "vec \<times> vec \<times> vec"

text \<open>The class \<^verbatim>\<open>Frame\<close>: three directions and an anchor point.\<close>

record frame =
  u :: vec
  v :: vec
  w :: vec
  location :: vec

text \<open>
  The fields of the mesh objects that the module reads. Tetrahedron and vertex indices
  are Python integers; \<open>-1\<close> is the out-of-mesh sentinel of \<open>adjacent_elements\<close> and
  \<open>neighbors\<close>. \<open>face_map_inv\<close> is \<^verbatim>\<open>surf_mesh.face_map.inv\<close> and \<open>vertex_map\<close> a
  dictionary of which only the keys are used.
\<close>

record tet_mesh =
  points :: "vec list"
  elements :: "int list list"
  edges :: "(int \<times> int) list"
  adjacent_elements :: "(int \<times> int) list"
  edge_adjacent_elements :: "int list"
  neighbors :: "int list list"

record surf_mesh =
  faces :: "int list list"
  face_map_inv :: "nat \<rightharpoonup> int"
  vertex_map :: "int \<rightharpoonup> int"
  k1 :: "real list"
  k2 :: "real list"
  pdir1 :: "vec list"
  pdir2 :: "vec list"
  vertex_normals :: "vec list"

text \<open>
  The exceptions the module can raise, all of them uncaught but one KeyError: IndexError
  and KeyError come from subscripts, ValueError and LinAlgError from numpy. The module
  defines no exception class and has no \<^verbatim>\<open>raise\<close> statement. \<open>InitializationError\<close> is
  the error that the specification names for an empty list of boundary frames; no
  definition below produces it.
\<close>

datatype error = IndexError | KeyError | ValueError | LinAlgError | InitializationError

definition bnd :: "error + 'a \<Rightarrow> ('a \<Rightarrow> error + 'b) \<Rightarrow> error + 'b" where
  "bnd r f = (case r of Inl e \<Rightarrow> Inl e | Inr x \<Rightarrow> f x)"

text \<open>
  Subscripting a list or an array with a Python integer: a negative index counts from
  the end, an index outside \<open>[-n, n)\<close> raises IndexError.
\<close>

definition py_index :: "'a list \<Rightarrow> int \<Rightarrow> error + 'a" where
  "py_index xs i =
     (if 0 \<le> i \<and> i < int (length xs) then Inr (xs ! nat i)
      else if - int (length xs) \<le> i \<and> i < 0 then Inr (xs ! nat (int (length xs) + i))
      else Inl IndexError)"

definition dict_get :: "('k \<rightharpoonup> 'a) \<Rightarrow> 'k \<Rightarrow> error + 'a" where
  "dict_get d k = (case d k of None \<Rightarrow> Inl KeyError | Some x \<Rightarrow> Inr x)"

section \<open>init\_framefield\<close>

text \<open>
  \<^verbatim>\<open>math.isclose(a, b)\<close> with its default arguments \<^verbatim>\<open>rel_tol=1e-09\<close> and
  \<^verbatim>\<open>abs_tol=0.0\<close>, as CPython computes it on finite numbers.
\<close>

definition rel_tol :: real where
  "rel_tol = 1 / 10 ^ 9"

definition abs_tol :: real where
  "abs_tol = 0"

definition isclose :: "real \<Rightarrow> real \<Rightarrow> bool" where
  "isclose a b =
     (a = b \<or> \<bar>b - a\<bar> \<le> \<bar>rel_tol * b\<bar> \<or> \<bar>b - a\<bar> \<le> \<bar>rel_tol * a\<bar> \<or> \<bar>b - a\<bar> \<le> abs_tol)"

text \<open>
  One pass of the first loop (lines 27 to 38) for the face \<open>surf_face\<close> of index \<open>fi\<close>:
  \<open>None\<close> is the \<^verbatim>\<open>continue\<close>, \<open>Some f\<close> the frame appended. The tetrahedron is
  looked up before the curvature test, and \<^verbatim>\<open>and\<close> reads \<open>k2\<close> only when the test on
  \<open>k1\<close> succeeded. \<open>tet_centroid\<close> is imported from \<^verbatim>\<open>utils\<close> and is a parameter.
\<close>

definition boundary_face ::
  "(tet_mesh \<Rightarrow> int \<Rightarrow> error + vec) \<Rightarrow> tet_mesh \<Rightarrow> surf_mesh \<Rightarrow> nat \<Rightarrow> int list
     \<Rightarrow> error + frame option" where
  "boundary_face tet_centroid tm sm fi surf_face =
     bnd (dict_get (face_map_inv sm) fi) (\<lambda>vf.
     bnd (py_index (adjacent_elements tm) vf) (\<lambda>pair.
     bnd (py_index (elements tm) (fst pair)) (\<lambda>tet.
     bnd (py_index surf_face 0) (\<lambda>v0.
     bnd (py_index (k1 sm) v0) (\<lambda>c1.
     bnd (if isclose c1 0 then bnd (py_index (k2 sm) v0) (\<lambda>c2. Inr (isclose c2 0))
          else Inr False) (\<lambda>flat.
     if flat then Inr None
     else
       bnd (py_index (pdir1 sm) v0) (\<lambda>d1.
       bnd (py_index (pdir2 sm) v0) (\<lambda>d2.
       bnd (py_index (vertex_normals sm) v0) (\<lambda>nrm.
       bnd (tet_centroid tm (fst pair)) (\<lambda>c.
       Inr (Some \<lparr>u = d1, v = d2, w = nrm, location = c\<rparr>)))))))))))"

fun boundary_loop ::
  "(tet_mesh \<Rightarrow> int \<Rightarrow> error + vec) \<Rightarrow> tet_mesh \<Rightarrow> surf_mesh \<Rightarrow> (nat \<times> int list) list
     \<Rightarrow> frame list \<Rightarrow> error + frame list" where
  "boundary_loop tet_centroid tm sm [] boundary_frames = Inr boundary_frames"
| "boundary_loop tet_centroid tm sm ((fi, surf_face) # rest) boundary_frames =
     (case boundary_face tet_centroid tm sm fi surf_face of
        Inl e \<Rightarrow> Inl e
      | Inr None \<Rightarrow> boundary_loop tet_centroid tm sm rest boundary_frames
      | Inr (Some f) \<Rightarrow> boundary_loop tet_centroid tm sm rest (boundary_frames @ [f]))"

text \<open>
  \<^verbatim>\<open>np.vstack\<close> raises ValueError on an empty sequence of arrays; on a non-empty one
  it stacks the locations, which is what the KDTree is built from.
\<close>

definition vstack :: "vec list \<Rightarrow> error + vec list" where
  "vstack arrays = (if arrays = [] then Inl ValueError else Inr arrays)"

text \<open>
  One pass of the second loop (lines 46 to 53). \<open>query tree location\<close> stands for
  \<^verbatim>\<open>spatial.KDTree(tree).query(location)[1]\<close>, the index scipy returns; it is a
  parameter, and the subscript of \<open>boundary_frames\<close> with it is Python's.
\<close>

definition propagate_tet ::
  "(tet_mesh \<Rightarrow> int \<Rightarrow> error + vec) \<Rightarrow> (vec list \<Rightarrow> vec \<Rightarrow> int) \<Rightarrow> tet_mesh \<Rightarrow> frame list
     \<Rightarrow> vec list \<Rightarrow> nat \<Rightarrow> error + frame" where
  "propagate_tet tet_centroid query tm boundary_frames tree ti =
     bnd (tet_centroid tm (int ti)) (\<lambda>loc.
     bnd (py_index boundary_frames (query tree loc)) (\<lambda>nearest.
     Inr \<lparr>u = u nearest, v = v nearest, w = w nearest, location = loc\<rparr>))"

fun propagate_loop ::
  "(tet_mesh \<Rightarrow> int \<Rightarrow> error + vec) \<Rightarrow> (vec list \<Rightarrow> vec \<Rightarrow> int) \<Rightarrow> tet_mesh \<Rightarrow> frame list
     \<Rightarrow> vec list \<Rightarrow> (nat \<times> int list) list \<Rightarrow> frame list \<Rightarrow> error + frame list" where
  "propagate_loop tet_centroid query tm boundary_frames tree [] frames = Inr frames"
| "propagate_loop tet_centroid query tm boundary_frames tree ((ti, tet) # rest) frames =
     (case propagate_tet tet_centroid query tm boundary_frames tree ti of
        Inl e \<Rightarrow> Inl e
      | Inr f \<Rightarrow>
          propagate_loop tet_centroid query tm boundary_frames tree rest (frames @ [f]))"

definition init_framefield ::
  "(tet_mesh \<Rightarrow> int \<Rightarrow> error + vec) \<Rightarrow> (vec list \<Rightarrow> vec \<Rightarrow> int) \<Rightarrow> tet_mesh \<Rightarrow> surf_mesh
     \<Rightarrow> error + frame list" where
  "init_framefield tet_centroid query tm sm =
     bnd (boundary_loop tet_centroid tm sm (List.enumerate 0 (faces sm)) []) (\<lambda>boundary_frames.
     bnd (vstack (map location boundary_frames)) (\<lambda>tree.
     propagate_loop tet_centroid query tm boundary_frames tree
       (List.enumerate 0 (elements tm)) []))"

section \<open>compute\_onerings\<close>

text \<open>
  The \<^verbatim>\<open>for\<close> loop over the neighbours of the last tetrahedron of the ring (lines 71 to
  81): \<open>Some n\<close> is the neighbour appended before the \<^verbatim>\<open>break\<close>, \<open>None\<close> is the loop
  running to its end with \<open>finished\<close> still true. The element row is read before the
  sentinel test, so \<^verbatim>\<open>elements[-1]\<close> is the last row.
\<close>

fun scan_neighbors :: "tet_mesh \<Rightarrow> int \<times> int \<Rightarrow> int list \<Rightarrow> int list \<Rightarrow> error + int option" where
  "scan_neighbors tm edge one_ring [] = Inr None"
| "scan_neighbors tm edge one_ring (neigh_ti # rest) =
     (case py_index (elements tm) neigh_ti of
        Inl e \<Rightarrow> Inl e
      | Inr neighbor \<Rightarrow>
          if neigh_ti = - 1 \<or> neigh_ti \<in> set one_ring then scan_neighbors tm edge one_ring rest
          else if fst edge \<in> set neighbor \<and> snd edge \<in> set neighbor then Inr (Some neigh_ti)
          else scan_neighbors tm edge one_ring rest)"

lemma py_index_in_set: "py_index xs i = Inr x \<Longrightarrow> x \<in> set xs"
  by (auto simp: py_index_def split: if_splits)

lemma scan_neighbors_Some:
  "scan_neighbors tm edge one_ring ns = Inr (Some n) \<Longrightarrow>
     n \<in> set ns \<and> n \<noteq> - 1 \<and> n \<notin> set one_ring \<and>
     (\<exists>neighbor. py_index (elements tm) n = Inr neighbor \<and>
        fst edge \<in> set neighbor \<and> snd edge \<in> set neighbor)"
  by (induction ns) (auto split: sum.splits if_splits)

text \<open>
  The \<^verbatim>\<open>while not finished\<close> loop (lines 69 to 81). Every pass appends a tetrahedron
  index that one of the neighbour rows holds and the ring does not, so the loop ends.
\<close>

function walk_ring :: "tet_mesh \<Rightarrow> int \<times> int \<Rightarrow> int list \<Rightarrow> error + int list" where
  "walk_ring tm edge one_ring =
     (if one_ring = [] then Inl IndexError
      else
        case py_index (neighbors tm) (last one_ring) of
          Inl e \<Rightarrow> Inl e
        | Inr ns \<Rightarrow>
            (case scan_neighbors tm edge one_ring ns of
               Inl e \<Rightarrow> Inl e
             | Inr None \<Rightarrow> Inr one_ring
             | Inr (Some neigh_ti) \<Rightarrow> walk_ring tm edge (one_ring @ [neigh_ti])))"
  by pat_completeness auto
termination
proof (relation "measure (\<lambda>(tm, edge, one_ring). card (set (concat (neighbors tm)) - set one_ring))")
  show "wf (measure (\<lambda>(tm, edge, one_ring). card (set (concat (neighbors tm)) - set one_ring)))"
    by simp
next
  fix tm :: tet_mesh and edge :: "int \<times> int" and one_ring ns r n
  assume ns: "py_index (neighbors tm) (last one_ring) = Inr ns"
    and r: "scan_neighbors tm edge one_ring ns = Inr r" "r = Some n"
  have "ns \<in> set (neighbors tm)"
    using ns by (rule py_index_in_set)
  moreover have "n \<in> set ns" "n \<notin> set one_ring"
    using scan_neighbors_Some [of tm edge one_ring ns n] r by simp_all
  ultimately have "n \<in> set (concat (neighbors tm)) - set one_ring"
    by auto
  then have "card (set (concat (neighbors tm)) - set (one_ring @ [n]))
      < card (set (concat (neighbors tm)) - set one_ring)"
    by (intro psubset_card_mono) auto
  then show "((tm, edge, one_ring @ [n]), (tm, edge, one_ring))
      \<in> measure (\<lambda>(tm, edge, one_ring). card (set (concat (neighbors tm)) - set one_ring))"
    by simp
qed

declare walk_ring.simps [simp del]

text \<open>The test of line 62, negated: the edge is treated as internal.\<close>

definition internal_edge :: "surf_mesh \<Rightarrow> int \<times> int \<Rightarrow> bool" where
  "internal_edge sm edge =
     (\<not> (vertex_map sm (fst edge) \<noteq> None \<and> vertex_map sm (snd edge) \<noteq> None))"

text \<open>
  The loop over the edges (lines 60 to 83): an edge with both endpoints among the keys
  of \<open>vertex_map\<close> is skipped, any other edge gets the ring the walk ends with.
\<close>

fun onering_loop ::
  "tet_mesh \<Rightarrow> surf_mesh \<Rightarrow> (nat \<times> int \<times> int) list \<Rightarrow> (nat \<rightharpoonup> int list)
     \<Rightarrow> error + (nat \<rightharpoonup> int list)" where
  "onering_loop tm sm [] one_rings = Inr one_rings"
| "onering_loop tm sm ((ei, edge) # rest) one_rings =
     (if vertex_map sm (fst edge) \<noteq> None \<and> vertex_map sm (snd edge) \<noteq> None
      then onering_loop tm sm rest one_rings
      else
        case py_index (edge_adjacent_elements tm) (int ei) of
          Inl e \<Rightarrow> Inl e
        | Inr seed \<Rightarrow>
            (case walk_ring tm edge [seed] of
               Inl e \<Rightarrow> Inl e
             | Inr one_ring \<Rightarrow> onering_loop tm sm rest (one_rings(ei \<mapsto> one_ring))))"

definition compute_onerings :: "tet_mesh \<Rightarrow> surf_mesh \<Rightarrow> error + (nat \<rightharpoonup> int list)" where
  "compute_onerings tm sm = onering_loop tm sm (List.enumerate 0 (edges tm)) Map.empty"

section \<open>singular\_graph\<close>

subsection \<open>The numpy operations it calls\<close>

fun vadd :: "vec \<Rightarrow> vec \<Rightarrow> vec" where
  "vadd (a1, a2, a3) (b1, b2, b3) = (a1 + b1, a2 + b2, a3 + b3)"

fun vsub :: "vec \<Rightarrow> vec \<Rightarrow> vec" where
  "vsub (a1, a2, a3) (b1, b2, b3) = (a1 - b1, a2 - b2, a3 - b3)"

text \<open>\<^verbatim>\<open>M.T\<close>, \<^verbatim>\<open>np.dot(x, M)\<close> for a vector \<open>x\<close>, and \<^verbatim>\<open>np.dot(A, B)\<close> for matrices.\<close>

fun mat_T :: "mat \<Rightarrow> mat" where
  "mat_T ((a, b, c), (d, e, f), (g, h, i)) = ((a, d, g), (b, e, h), (c, f, i))"

fun vec_dot_mat :: "vec \<Rightarrow> mat \<Rightarrow> vec" where
  "vec_dot_mat (x1, x2, x3) ((a, b, c), (d, e, f), (g, h, i)) =
     (x1 * a + x2 * d + x3 * g, x1 * b + x2 * e + x3 * h, x1 * c + x2 * f + x3 * i)"

fun mat_dot :: "mat \<Rightarrow> mat \<Rightarrow> mat" where
  "mat_dot (r1, r2, r3) B = (vec_dot_mat r1 B, vec_dot_mat r2 B, vec_dot_mat r3 B)"

definition identity3 :: mat where
  "identity3 = ((1, 0, 0), (0, 1, 0), (0, 0, 1))"

text \<open>\<^verbatim>\<open>np.linalg.norm\<close> of a vector: the Euclidean norm.\<close>

fun linalg_norm :: "vec \<Rightarrow> real" where
  "linalg_norm (x1, x2, x3) = sqrt (x1 * x1 + x2 * x2 + x3 * x3)"

text \<open>
  \<^verbatim>\<open>np.linalg.inv\<close>: the inverse of a matrix, LinAlgError on a singular one.
\<close>

fun det3 :: "mat \<Rightarrow> real" where
  "det3 ((a, b, c), (d, e, f), (g, h, i)) =
     a * (e * i - f * h) - b * (d * i - f * g) + c * (d * h - e * g)"

fun adjugate :: "mat \<Rightarrow> mat" where
  "adjugate ((a, b, c), (d, e, f), (g, h, i)) =
     ((e * i - f * h, c * h - b * i, b * f - c * e),
      (f * g - d * i, a * i - c * g, c * d - a * f),
      (d * h - e * g, b * g - a * h, a * e - b * d))"

fun mat_scale :: "real \<Rightarrow> mat \<Rightarrow> mat" where
  "mat_scale s ((a, b, c), (d, e, f), (g, h, i)) =
     ((s * a, s * b, s * c), (s * d, s * e, s * f), (s * g, s * h, s * i))"

definition linalg_inv :: "mat \<Rightarrow> error + mat" where
  "linalg_inv M = (if det3 M = 0 then Inl LinAlgError else Inr (mat_scale (1 / det3 M) (adjugate M)))"

text \<open>
  \<^verbatim>\<open>np.argmin\<close> of a list of numbers: the index of the first occurrence of the
  minimum, ValueError on the empty list. \<open>argmin_from best bv i xs\<close> scans \<open>xs\<close>, whose
  first element has index \<open>i\<close>, with the minimum \<open>bv\<close> so far at index \<open>best\<close>.
\<close>

fun argmin_from :: "nat \<Rightarrow> real \<Rightarrow> nat \<Rightarrow> real list \<Rightarrow> nat" where
  "argmin_from best bv i [] = best"
| "argmin_from best bv i (x # xs) =
     (if x < bv then argmin_from i x (Suc i) xs else argmin_from best bv (Suc i) xs)"

fun argmin :: "real list \<Rightarrow> error + nat" where
  "argmin [] = Inl ValueError"
| "argmin (x # xs) = Inr (argmin_from 0 x 1 xs)"

subsection \<open>The matchings (lines 89 to 102)\<close>

text \<open>
  The expression of lines 97 to 99. Python reads \<^verbatim>\<open>a - b + c - d + e - f\<close> from the left.
\<close>

definition residual :: "frame \<Rightarrow> frame \<Rightarrow> mat \<Rightarrow> vec" where
  "residual fi fj permutation =
     vsub (vadd (vsub (vadd (vsub (u fi) (vec_dot_mat (u fj) (mat_T permutation))) (v fi))
                   (vec_dot_mat (v fj) (mat_T permutation))) (w fi))
          (vec_dot_mat (w fj) (mat_T permutation))"

text \<open>
  The loop over \<open>chiral_symmetries\<close>, a list imported from \<^verbatim>\<open>utils\<close> and a parameter
  of everything below. The frames are subscripted in every pass.
\<close>

fun args_loop :: "frame list \<Rightarrow> int \<times> int \<Rightarrow> mat list \<Rightarrow> real list \<Rightarrow> error + real list" where
  "args_loop frames pair [] args = Inr args"
| "args_loop frames pair (permutation # rest) args =
     (case py_index frames (fst pair) of
        Inl e \<Rightarrow> Inl e
      | Inr fi \<Rightarrow>
          (case py_index frames (snd pair) of
             Inl e \<Rightarrow> Inl e
           | Inr fj \<Rightarrow>
               args_loop frames pair rest (args @ [linalg_norm (residual fi fj permutation)])))"

definition best_matching :: "mat list \<Rightarrow> frame list \<Rightarrow> int \<times> int \<Rightarrow> error + mat" where
  "best_matching chiral_symmetries frames pair =
     bnd (args_loop frames pair chiral_symmetries []) (\<lambda>args.
     bnd (argmin args) (\<lambda>k.
     py_index chiral_symmetries (int k)))"

fun matching_loop ::
  "mat list \<Rightarrow> frame list \<Rightarrow> (int \<times> int) list \<Rightarrow> (int \<times> int \<rightharpoonup> mat)
     \<Rightarrow> error + (int \<times> int \<rightharpoonup> mat)" where
  "matching_loop chiral_symmetries frames [] matchings = Inr matchings"
| "matching_loop chiral_symmetries frames (pair # rest) matchings =
     (if fst pair = - 1 \<or> snd pair = - 1
      then matching_loop chiral_symmetries frames rest matchings
      else
        case best_matching chiral_symmetries frames pair of
          Inl e \<Rightarrow> Inl e
        | Inr m \<Rightarrow> matching_loop chiral_symmetries frames rest (matchings(pair \<mapsto> m)))"

subsection \<open>The classification of the edges (lines 106 to 131)\<close>

text \<open>
  One pass of the loop of lines 114 to 124, for the index \<open>i\<close> and the accumulator
  \<open>etype\<close> (\<^verbatim>\<open>type\<close> in the source). The variable \<open>matching\<close> is assigned in both
  branches; line 124 multiplies by \<^verbatim>\<open>matchings[pair]\<close>, with \<open>pair\<close> as the branch left
  it.
\<close>

definition concat_step ::
  "(int \<times> int \<rightharpoonup> mat) \<Rightarrow> int list \<Rightarrow> nat \<Rightarrow> mat \<Rightarrow> error + mat" where
  "concat_step matchings one_ring i etype =
     (let pair = (one_ring ! ((i + 1) mod length one_ring), one_ring ! i) in
      if matchings pair = None then
        (let pair = (snd pair, fst pair) in
         bnd (dict_get matchings pair) (\<lambda>stored.
         bnd (linalg_inv stored) (\<lambda>matching.
         bnd (dict_get matchings pair) (\<lambda>factor.
         Inr (mat_dot etype factor)))))
      else
        bnd (dict_get matchings pair) (\<lambda>matching.
        bnd (dict_get matchings pair) (\<lambda>factor.
        Inr (mat_dot etype factor))))"





subsection \<open>The scoring rule and the selection, in the words of the specification\<close>

text \<open>The product of a matrix with a column vector.\<close>

fun mat_vec :: "mat \<Rightarrow> vec \<Rightarrow> vec" where
  "mat_vec ((a, b, c), (d, e, f), (g, h, i)) (x1, x2, x3) =
     (a * x1 + b * x2 + c * x3, d * x1 + e * x2 + f * x3, g * x1 + h * x2 + i * x3)"

text \<open>
  The score of a candidate \<open>R\<close> for the frames \<open>fi\<close> and \<open>fj\<close>: the Euclidean norm of the
  sum of the three residual vectors \<open>u\<^sub>i - R u\<^sub>j\<close>, \<open>v\<^sub>i - R v\<^sub>j\<close> and \<open>w\<^sub>i - R w\<^sub>j\<close>.
\<close>

definition spec_score :: "frame \<Rightarrow> frame \<Rightarrow> mat \<Rightarrow> real" where
  "spec_score fi fj R =
     linalg_norm (vadd (vadd (vsub (u fi) (mat_vec R (u fj))) (vsub (v fi) (mat_vec R (v fj))))
                       (vsub (w fi) (mat_vec R (w fj))))"

text \<open>
  The stable argmin: \<open>k\<close> is the index of a minimum of \<open>xs\<close>, and every earlier entry
  is strictly greater.
\<close>

definition first_minimum :: "real list \<Rightarrow> nat \<Rightarrow> bool" where
  "first_minimum xs k =
     (k < length xs \<and> (\<forall>j<length xs. xs ! k \<le> xs ! j) \<and> (\<forall>j<k. xs ! k < xs ! j))"




section \<open>Example inputs\<close>

text \<open>
  Instances of the two imported functions, used where a statement is evaluated: a
  centroid that only depends on the index, and a spatial query that always answers 0.
\<close>

definition example_centroid :: "tet_mesh \<Rightarrow> int \<Rightarrow> error + vec" where
  "example_centroid tm ti = Inr (real_of_int ti, 0, 0)"

definition example_query :: "vec list \<Rightarrow> vec \<Rightarrow> int" where
  "example_query tree loc = 0"

text \<open>A single tetrahedron, and its face 0 1 2 with the same curvature \<open>k\<close> everywhere.\<close>

definition one_tet :: tet_mesh where
  "one_tet = \<lparr>points = [(0, 0, 0), (1, 0, 0), (0, 1, 0), (0, 0, 1)], elements = [[0, 1, 2, 3]],
     edges = [(0, 1), (0, 2), (0, 3), (1, 2), (1, 3), (2, 3)], adjacent_elements = [(0, - 1)],
     edge_adjacent_elements = [0, 0, 0, 0, 0, 0], neighbors = [[- 1, - 1, - 1, - 1]]\<rparr>"

definition one_face :: "real \<Rightarrow> surf_mesh" where
  "one_face k = \<lparr>faces = [[0, 1, 2]], face_map_inv = [0 \<mapsto> 0],
     vertex_map = [0 \<mapsto> 0, 1 \<mapsto> 1, 2 \<mapsto> 2, 3 \<mapsto> 3],
     k1 = [k, k, k, k], k2 = [k, k, k, k],
     pdir1 = [(1, 0, 0), (1, 0, 0), (1, 0, 0), (1, 0, 0)],
     pdir2 = [(0, 1, 0), (0, 1, 0), (0, 1, 0), (0, 1, 0)],
     vertex_normals = [(0, 0, 1), (0, 0, 1), (0, 0, 1), (0, 0, 1)]\<rparr>"

definition one_frame :: frame where
  "one_frame = \<lparr>u = (1, 0, 0), v = (0, 1, 0), w = (0, 0, 1), location = (0, 0, 0)\<rparr>"

text \<open>
  Three tetrahedra around the edge from vertex 0 to vertex 1, which has no endpoint on
  the surface: tetrahedron 0 lies between tetrahedra 1 and 2, which are not adjacent
  to each other.
\<close>

definition open_fan :: tet_mesh where
  "open_fan = \<lparr>points = [], elements = [[0, 1, 2, 3], [0, 1, 3, 4], [0, 1, 2, 5]],
     edges = [(0, 1)], adjacent_elements = [(0, 1), (0, 2)],
     edge_adjacent_elements = [0],
     neighbors = [[1, 2, - 1, - 1], [0, - 1, - 1, - 1], [0, - 1, - 1, - 1]]\<rparr>"

definition open_fan_rings :: "nat \<rightharpoonup> int list" where
  "open_fan_rings = [0 \<mapsto> [0, 1]]"

definition no_surface :: surf_mesh where
  "no_surface = \<lparr>faces = [], face_map_inv = Map.empty, vertex_map = Map.empty,
     k1 = [], k2 = [], pdir1 = [], pdir2 = [], vertex_normals = []\<rparr>"

text \<open>
  The 24 rotations of the cube, for \<open>chiral_symmetries\<close>: the signed permutation
  matrices of determinant 1. The order is one of many; the module \<^verbatim>\<open>utils\<close> fixes
  the order the program uses.
\<close>

definition rotations24 :: "mat list" where
  "rotations24 =
     [
      ((1, 0, 0), (0, 1, 0), (0, 0, 1)),
      ((1, 0, 0), (0, - 1, 0), (0, 0, - 1)),
      ((- 1, 0, 0), (0, 1, 0), (0, 0, - 1)),
      ((- 1, 0, 0), (0, - 1, 0), (0, 0, 1)),
      ((1, 0, 0), (0, 0, 1), (0, - 1, 0)),
      ((1, 0, 0), (0, 0, - 1), (0, 1, 0)),
      ((- 1, 0, 0), (0, 0, 1), (0, 1, 0)),
      ((- 1, 0, 0), (0, 0, - 1), (0, - 1, 0)),
      ((0, 1, 0), (1, 0, 0), (0, 0, - 1)),
      ((0, 1, 0), (- 1, 0, 0), (0, 0, 1)),
      ((0, - 1, 0), (1, 0, 0), (0, 0, 1)),
      ((0, - 1, 0), (- 1, 0, 0), (0, 0, - 1)),
      ((0, 1, 0), (0, 0, 1), (1, 0, 0)),
      ((0, 1, 0), (0, 0, - 1), (- 1, 0, 0)),
      ((0, - 1, 0), (0, 0, 1), (- 1, 0, 0)),
      ((0, - 1, 0), (0, 0, - 1), (1, 0, 0)),
      ((0, 0, 1), (1, 0, 0), (0, 1, 0)),
      ((0, 0, 1), (- 1, 0, 0), (0, - 1, 0)),
      ((0, 0, - 1), (1, 0, 0), (0, - 1, 0)),
      ((0, 0, - 1), (- 1, 0, 0), (0, 1, 0)),
      ((0, 0, 1), (0, 1, 0), (- 1, 0, 0)),
      ((0, 0, 1), (0, - 1, 0), (1, 0, 0)),
      ((0, 0, - 1), (0, 1, 0), (1, 0, 0)),
      ((0, 0, - 1), (0, - 1, 0), (- 1, 0, 0))
     ]"

text \<open>
  Three tetrahedra around the edge from vertex 0 to vertex 1, with the faces between
  them recorded as the pairs (0, 1), (1, 2) and (0, 2). The quarter turn \<open>quarter_z\<close>
  about the third axis takes the frame of tetrahedra 1 and 2 to the frame of
  tetrahedron 0.
\<close>

definition quarter_z :: mat where
  "quarter_z = ((0, - 1, 0), (1, 0, 0), (0, 0, 1))"

definition three_tets :: tet_mesh where
  "three_tets = \<lparr>points = [(0, 0, 0), (0, 0, 1), (1, 0, 0), (0, 1, 0), (- 1, - 1, 0)],
     elements = [[0, 1, 2, 3], [0, 1, 3, 4], [0, 1, 4, 2]],
     edges = [(0, 1)], adjacent_elements = [(0, 1), (1, 2), (0, 2), (0, - 1), (1, - 1), (2, - 1)],
     edge_adjacent_elements = [0],
     neighbors = [[1, 2, - 1, - 1], [0, 2, - 1, - 1], [1, 0, - 1, - 1]]\<rparr>"


definition three_tets_table :: "int \<times> int \<rightharpoonup> mat" where
  "three_tets_table = [(0, 1) \<mapsto> quarter_z, (1, 2) \<mapsto> identity3, (0, 2) \<mapsto> quarter_z]"

definition frame_a :: frame where
  "frame_a = \<lparr>u = (1, 0, 0), v = (0, 2, 0), w = (0, 0, 3), location = (0, 0, 0)\<rparr>"

definition frame_b :: frame where
  "frame_b = \<lparr>u = (0, - 1, 0), v = (2, 0, 0), w = (0, 0, 3), location = (0, 0, 0)\<rparr>"

definition three_tets_frames :: "frame list" where
  "three_tets_frames = [frame_a, frame_b, frame_b]"

text \<open>
  Two frames for which two candidates have the same, least score: the two rotations by
  a third of a turn about the diagonal, each the transpose of the other.
\<close>

definition third_turn :: mat where
  "third_turn = ((0, 1, 0), (0, 0, 1), (1, 0, 0))"

definition frame_c :: frame where
  "frame_c = \<lparr>u = (2, 0, 0), v = (0, 2, 0), w = (0, 0, 1), location = (0, 0, 0)\<rparr>"

definition frame_d :: frame where
  "frame_d = \<lparr>u = (1, 0, 0), v = (0, 1, 0), w = (0, 0, 2), location = (0, 0, 0)\<rparr>"


definition tie_frames :: "frame list" where
  "tie_frames = [frame_c, frame_d]"


section \<open>Properties of init\_framefield\<close>

lemma bnd_simps: "bnd (Inr x) f = f x" "bnd (Inl e) f = Inl e"
  by (simp_all add: bnd_def)

lemma bnd_Inr_iff: "bnd r f = Inr y \<longleftrightarrow> (\<exists>x. r = Inr x \<and> f x = Inr y)"
  by (cases r) (simp_all add: bnd_def)

lemma py_index_Cons_0: "py_index (x # xs) 0 = Inr x"
  by (simp add: py_index_def)

text \<open>
  Against 0 the relative tolerance of \<open>isclose\<close> is a tolerance of 0, and the absolute
  tolerance is 0: the test holds of 0 only.
\<close>

lemma isclose_zero: "isclose a 0 \<longleftrightarrow> a = 0"
proof
  assume "isclose a 0"
  then have "\<bar>a\<bar> \<le> \<bar>rel_tol * a\<bar> \<or> a = 0"
    by (auto simp: isclose_def abs_tol_def)
  moreover have "\<bar>rel_tol * a\<bar> = \<bar>a\<bar> / 10 ^ 9"
    by (simp add: rel_tol_def abs_mult)
  ultimately show "a = 0"
    by (cases "a = 0") auto
qed (simp add: isclose_def)

lemma boundary_face_Inr:
  assumes "boundary_face tc tm sm fi sf = Inr r"
  shows "\<exists>v0 c1. py_index sf 0 = Inr v0 \<and> py_index (k1 sm) v0 = Inr c1 \<and>
           (r = None \<longleftrightarrow> c1 = 0 \<and> py_index (k2 sm) v0 = Inr 0) \<and>
           (\<forall>f. r = Some f \<longrightarrow>
              py_index (pdir1 sm) v0 = Inr (u f) \<and> py_index (pdir2 sm) v0 = Inr (v f) \<and>
              py_index (vertex_normals sm) v0 = Inr (w f))"
  using assms unfolding boundary_face_def
  by (auto simp: bnd_Inr_iff isclose_zero split: if_splits)

lemma boundary_loop_Inr:
  "boundary_loop tc tm sm xs acc = Inr bfs \<Longrightarrow>
     \<exists>rs. list_all2 (\<lambda>x r. boundary_face tc tm sm (fst x) (snd x) = Inr r) xs rs \<and>
          bfs = acc @ concat (map (case_option [] (\<lambda>f. [f])) rs)"
proof (induction xs arbitrary: acc)
  case Nil
  then show ?case by simp
next
  case (Cons x xs)
  obtain fi sf where x: "x = (fi, sf)" by (cases x)
  from Cons.prems obtain r where r: "boundary_face tc tm sm fi sf = Inr r"
    by (auto simp: x split: sum.splits)
  show ?case
  proof (cases r)
    case None
    with Cons.prems r x have "boundary_loop tc tm sm xs acc = Inr bfs" by simp
    from Cons.IH [OF this] obtain rs where
      "list_all2 (\<lambda>x r. boundary_face tc tm sm (fst x) (snd x) = Inr r) xs rs"
      "bfs = acc @ concat (map (case_option [] (\<lambda>f. [f])) rs)" by blast
    then show ?thesis using r None x
      by (intro exI [of _ "None # rs"]) simp
  next
    case (Some f)
    with Cons.prems r x have "boundary_loop tc tm sm xs (acc @ [f]) = Inr bfs" by simp
    from Cons.IH [OF this] obtain rs where
      "list_all2 (\<lambda>x r. boundary_face tc tm sm (fst x) (snd x) = Inr r) xs rs"
      "bfs = (acc @ [f]) @ concat (map (case_option [] (\<lambda>f. [f])) rs)" by blast
    then show ?thesis using r Some x
      by (intro exI [of _ "Some f # rs"]) simp
  qed
qed

lemma propagate_loop_Inr:
  "propagate_loop tc q tm bfs tree xs acc = Inr frames \<Longrightarrow>
     \<exists>fs. list_all2 (\<lambda>x f. propagate_tet tc q tm bfs tree (fst x) = Inr f) xs fs \<and>
          frames = acc @ fs"
proof (induction xs arbitrary: acc)
  case Nil
  then show ?case by simp
next
  case (Cons x xs)
  obtain ti tet where x: "x = (ti, tet)" by (cases x)
  from Cons.prems obtain f where f: "propagate_tet tc q tm bfs tree ti = Inr f"
    and rest: "propagate_loop tc q tm bfs tree xs (acc @ [f]) = Inr frames"
    by (auto simp: x split: sum.splits)
  from Cons.IH [OF rest] obtain fs where
    "list_all2 (\<lambda>x f. propagate_tet tc q tm bfs tree (fst x) = Inr f) xs fs"
    "frames = (acc @ [f]) @ fs" by blast
  then show ?case using f x
    by (intro exI [of _ "f # fs"]) simp
qed

subsection \<open>The one-face examples, evaluated\<close>

lemma one_face_tiny:
  "boundary_face example_centroid one_tet (one_face (1 / 10 ^ 12)) 0 [0, 1, 2] = Inr (Some one_frame)"
  by (simp add: boundary_face_def one_face_def one_tet_def example_centroid_def dict_get_def
      py_index_Cons_0 bnd_simps isclose_zero one_frame_def)

lemma one_face_flat: "boundary_face example_centroid one_tet (one_face 0) 0 [0, 1, 2] = Inr None"
  by (simp add: boundary_face_def one_face_def one_tet_def example_centroid_def dict_get_def
      py_index_Cons_0 bnd_simps isclose_zero)

lemma flat_loop:
  "boundary_loop example_centroid one_tet (one_face 0)
     (List.enumerate 0 (faces (one_face 0))) [] = Inr []"
  using one_face_flat by (simp add: one_face_def)

lemma tiny_loop:
  "boundary_loop example_centroid one_tet (one_face (1 / 10 ^ 12))
     (List.enumerate 0 (faces (one_face (1 / 10 ^ 12)))) [] = Inr [one_frame]"
  using one_face_tiny by (simp add: one_face_def)

lemma tiny_init:
  "init_framefield example_centroid example_query one_tet (one_face (1 / 10 ^ 12))
     = Inr [one_frame]"
  unfolding init_framefield_def tiny_loop
  by (simp add: bnd_simps vstack_def one_tet_def propagate_tet_def example_centroid_def
      example_query_def py_index_Cons_0 one_frame_def)

subsection \<open>Which faces give a boundary frame\<close>

text \<open>
  Claim C7. When the first loop completes, every surface face has given no frame or
  one frame, in the order of the faces. A face gives a frame whose \<open>u\<close>, \<open>v\<close> and \<open>w\<close>
  are the two principal directions and the normal of its first vertex, and it gives
  none exactly when both principal curvatures of that vertex are equal to 0: the test
  \<^verbatim>\<open>math.isclose(k, 0)\<close> of line 32 allows no deviation from 0, however small.
\<close>

theorem boundary_frames_of_faces:
  assumes "boundary_loop tet_centroid tm sm (List.enumerate 0 (faces sm)) [] = Inr boundary_frames"
  shows "\<exists>rs. length rs = length (faces sm) \<and>
           boundary_frames = concat (map (case_option [] (\<lambda>f. [f])) rs) \<and>
           (\<forall>fi<length (faces sm). \<exists>v0 c1.
              py_index (faces sm ! fi) 0 = Inr v0 \<and> py_index (k1 sm) v0 = Inr c1 \<and>
              (rs ! fi = None \<longleftrightarrow> c1 = 0 \<and> py_index (k2 sm) v0 = Inr 0) \<and>
              (\<forall>f. rs ! fi = Some f \<longrightarrow>
                 py_index (pdir1 sm) v0 = Inr (u f) \<and> py_index (pdir2 sm) v0 = Inr (v f) \<and>
                 py_index (vertex_normals sm) v0 = Inr (w f)))"
proof -
  from boundary_loop_Inr [OF assms] obtain rs where
    all: "list_all2 (\<lambda>x r. boundary_face tet_centroid tm sm (fst x) (snd x) = Inr r)
      (List.enumerate 0 (faces sm)) rs"
    and bfs: "boundary_frames = concat (map (case_option [] (\<lambda>f. [f])) rs)"
    by auto
  from all have len: "length rs = length (faces sm)"
    by (auto dest: list_all2_lengthD)
  have "\<exists>v0 c1.
      py_index (faces sm ! fi) 0 = Inr v0 \<and> py_index (k1 sm) v0 = Inr c1 \<and>
      (rs ! fi = None \<longleftrightarrow> c1 = 0 \<and> py_index (k2 sm) v0 = Inr 0) \<and>
      (\<forall>f. rs ! fi = Some f \<longrightarrow>
         py_index (pdir1 sm) v0 = Inr (u f) \<and> py_index (pdir2 sm) v0 = Inr (v f) \<and>
         py_index (vertex_normals sm) v0 = Inr (w f))" if "fi < length (faces sm)" for fi
  proof -
    from all that have "boundary_face tet_centroid tm sm (fst (List.enumerate 0 (faces sm) ! fi))
        (snd (List.enumerate 0 (faces sm) ! fi)) = Inr (rs ! fi)"
      by (auto simp: list_all2_conv_all_nth)
    with that have "boundary_face tet_centroid tm sm fi (faces sm ! fi) = Inr (rs ! fi)"
      by (simp add: nth_enumerate_eq)
    then show ?thesis by (rule boundary_face_Inr)
  qed
  with len bfs show ?thesis by blast
qed

theorem boundary_frames_of_faces_witness:
  "boundary_loop example_centroid one_tet (one_face (1 / 10 ^ 12))
     (List.enumerate 0 (faces (one_face (1 / 10 ^ 12)))) [] = Inr [one_frame] \<and>
   (\<exists>rs. length rs = length (faces (one_face (1 / 10 ^ 12))) \<and>
      [one_frame] = concat (map (case_option [] (\<lambda>f. [f])) rs) \<and>
      (\<forall>fi<length (faces (one_face (1 / 10 ^ 12))). \<exists>v0 c1.
         py_index (faces (one_face (1 / 10 ^ 12)) ! fi) 0 = Inr v0 \<and>
         py_index (k1 (one_face (1 / 10 ^ 12))) v0 = Inr c1 \<and>
         (rs ! fi = None \<longleftrightarrow> c1 = 0 \<and> py_index (k2 (one_face (1 / 10 ^ 12))) v0 = Inr 0) \<and>
         (\<forall>f. rs ! fi = Some f \<longrightarrow>
            py_index (pdir1 (one_face (1 / 10 ^ 12))) v0 = Inr (u f) \<and>
            py_index (pdir2 (one_face (1 / 10 ^ 12))) v0 = Inr (v f) \<and>
            py_index (vertex_normals (one_face (1 / 10 ^ 12))) v0 = Inr (w f))))"
  using boundary_frames_of_faces [OF tiny_loop] tiny_loop by (intro conjI) assumption+

subsection \<open>No boundary frame at all\<close>

text \<open>
  With no boundary frame the second loop cannot give a frame to any tetrahedron,
  whatever the spatial query answers: the subscript of the empty list at line 50 raises
  IndexError.
\<close>

lemma propagate_loop_no_boundary:
  assumes "propagate_loop tc q tm [] tree xs acc = Inr frames"
  shows "xs = [] \<and> frames = acc"
proof (cases xs)
  case Nil
  with assms show ?thesis by simp
next
  case (Cons x rest)
  obtain ti tet where x: "x = (ti, tet)" by (cases x)
  have "propagate_tet tc q tm [] tree ti = Inl IndexError \<or>
      (\<exists>e. tc tm (int ti) = Inl e \<and> propagate_tet tc q tm [] tree ti = Inl e)"
    by (cases "tc tm (int ti)") (simp_all add: propagate_tet_def bnd_simps py_index_def)
  then obtain e where "propagate_tet tc q tm [] tree ti = Inl e" by blast
  with assms Cons x show ?thesis by simp
qed

text \<open>
  The errors of \<open>init_framefield\<close> are those of the subscripts, of \<^verbatim>\<open>np.vstack\<close> and
  of \<open>tet_centroid\<close>: there is no error of its own.
\<close>

lemma py_index_Inl: "py_index xs i = Inl e \<Longrightarrow> e = IndexError"
  by (simp add: py_index_def split: if_splits)

lemma bnd_Inl_iff: "bnd r f = Inl e \<longleftrightarrow> r = Inl e \<or> (\<exists>x. r = Inr x \<and> f x = Inl e)"
  by (cases r) (simp_all add: bnd_def)

lemma boundary_face_Inl:
  assumes "boundary_face tc tm sm fi sf = Inl e"
  shows "e = IndexError \<or> e = KeyError \<or> (\<exists>ti. tc tm ti = Inl e)"
  using assms unfolding boundary_face_def
  by (auto simp: bnd_Inl_iff dict_get_def dest: py_index_Inl
      split: if_splits option.splits simp del: split_paired_Ex)

lemma boundary_loop_Inl:
  "boundary_loop tc tm sm xs acc = Inl e \<Longrightarrow>
     e = IndexError \<or> e = KeyError \<or> (\<exists>ti. tc tm ti = Inl e)"
proof (induction xs arbitrary: acc)
  case Nil
  then show ?case by simp
next
  case (Cons x xs)
  obtain fi sf where x: "x = (fi, sf)" by (cases x)
  show ?case
  proof (cases "boundary_face tc tm sm fi sf")
    case (Inl e')
    with Cons.prems x have "e' = e" by simp
    with Inl show ?thesis by (auto dest: boundary_face_Inl)
  next
    case (Inr r)
    with Cons.prems x Cons.IH show ?thesis
      by (cases r) auto
  qed
qed

lemma propagate_loop_Inl:
  "propagate_loop tc q tm bfs tree xs acc = Inl e \<Longrightarrow>
     e = IndexError \<or> (\<exists>ti. tc tm ti = Inl e)"
proof (induction xs arbitrary: acc)
  case Nil
  then show ?case by simp
next
  case (Cons x xs)
  obtain ti tet where x: "x = (ti, tet)" by (cases x)
  show ?case
  proof (cases "propagate_tet tc q tm bfs tree ti")
    case (Inl e')
    with Cons.prems x have "e' = e" by simp
    with Inl show ?thesis
      unfolding propagate_tet_def by (auto simp: bnd_Inl_iff dest: py_index_Inl)
  next
    case (Inr f)
    with Cons.prems x Cons.IH show ?thesis by auto
  qed
qed

lemma init_framefield_Inl:
  assumes "init_framefield tc q tm sm = Inl e"
  shows "e = IndexError \<or> e = KeyError \<or> e = ValueError \<or> (\<exists>ti. tc tm ti = Inl e)"
proof -
  from assms consider
    "boundary_loop tc tm sm (List.enumerate 0 (faces sm)) [] = Inl e"
    | bfs :: "frame list" where "vstack (map location bfs) = Inl e"
    | bfs tree where "propagate_loop tc q tm bfs tree (List.enumerate 0 (elements tm)) [] = Inl e"
    by (auto simp: init_framefield_def bnd_Inl_iff simp del: split_paired_Ex)
  then show ?thesis
  proof cases
    case 1
    then show ?thesis by (auto dest: boundary_loop_Inl)
  next
    case 2
    then show ?thesis by (simp add: vstack_def split: if_splits)
  next
    case 3
    then show ?thesis by (auto dest: propagate_loop_Inl)
  qed
qed

text \<open>
  Claim C6 fails on the code: it has no test for an empty list of boundary frames and
  no error of its own. On the flat face the list is empty and what ends the call is the
  ValueError of \<^verbatim>\<open>np.vstack\<close>, not the initialization error that the claim names.
\<close>

theorem init_framefield_numpy_error:
  "boundary_loop example_centroid one_tet (one_face 0)
     (List.enumerate 0 (faces (one_face 0))) [] = Inr [] \<and>
   init_framefield example_centroid example_query one_tet (one_face 0) = Inl ValueError \<and>
   ValueError \<noteq> InitializationError"
  using flat_loop by (simp add: init_framefield_def bnd_simps vstack_def)

text \<open>
  Claim C6, amended. When the first loop completes with an empty list of boundary
  frames, \<open>init_framefield\<close> returns no frames: the list goes unchecked to
  \<^verbatim>\<open>np.vstack\<close> at line 41, whose ValueError on an empty sequence ends the call, and no
  initialization error is reported. Past line 41 the result would be the same for every
  mesh with a tetrahedron: the second loop completes on an empty list of boundary
  frames only when the mesh has no tetrahedron, and then with no frame.
\<close>

theorem init_framefield_empty_boundary:
  assumes "boundary_loop tet_centroid tm sm (List.enumerate 0 (faces sm)) [] = Inr []"
  shows "init_framefield tet_centroid query tm sm = Inl ValueError \<and>
         init_framefield tet_centroid query tm sm \<noteq> Inl InitializationError \<and>
         (\<forall>tree frames.
            propagate_loop tet_centroid query tm [] tree (List.enumerate 0 (elements tm)) []
              = Inr frames \<longrightarrow> elements tm = [] \<and> frames = [])"
proof -
  have "init_framefield tet_centroid query tm sm = Inl ValueError"
    using assms by (simp add: init_framefield_def bnd_simps vstack_def)
  moreover have "elements tm = [] \<and> frames = []"
    if "propagate_loop tet_centroid query tm [] tree (List.enumerate 0 (elements tm)) []
      = Inr frames" for tree frames
    using propagate_loop_no_boundary [OF that] by (simp add: enumerate_eq_zip)
  ultimately show ?thesis by simp
qed

theorem init_framefield_empty_boundary_witness:
  "boundary_loop example_centroid one_tet (one_face 0)
     (List.enumerate 0 (faces (one_face 0))) [] = Inr [] \<and>
   init_framefield example_centroid example_query one_tet (one_face 0) = Inl ValueError \<and>
   init_framefield example_centroid example_query one_tet (one_face 0)
     \<noteq> Inl InitializationError \<and>
   (\<exists>e. propagate_loop example_centroid example_query one_tet [] []
      (List.enumerate 0 (elements one_tet)) [] = Inl e)"
proof -
  have "\<exists>e. propagate_loop example_centroid example_query one_tet [] []
      (List.enumerate 0 (elements one_tet)) [] = Inl e"
  proof (cases "propagate_loop example_centroid example_query one_tet [] []
      (List.enumerate 0 (elements one_tet)) []")
    case (Inl e)
    then show ?thesis by blast
  next
    case (Inr frames)
    with init_framefield_empty_boundary [OF flat_loop, of example_query]
    have "elements one_tet = []" by blast
    then show ?thesis by (simp add: one_tet_def)
  qed
  with init_framefield_empty_boundary [OF flat_loop, of example_query] flat_loop
  show ?thesis by blast
qed

subsection \<open>One frame for every tetrahedron\<close>

text \<open>
  Claim C8. When \<open>init_framefield\<close> returns, it returns one frame for every
  tetrahedron of the mesh, in the order of the tetrahedra. The location of the frame of
  tetrahedron \<open>ti\<close> is the centroid of \<open>ti\<close>, and its \<open>u\<close>, \<open>v\<close>, \<open>w\<close> are those of the
  boundary frame at the index that the spatial query answers for that centroid.
\<close>

theorem init_framefield_frames:
  assumes "init_framefield tet_centroid query tm sm = Inr frames"
  shows "\<exists>boundary_frames.
           boundary_loop tet_centroid tm sm (List.enumerate 0 (faces sm)) [] = Inr boundary_frames \<and>
           length frames = length (elements tm) \<and>
           (\<forall>ti<length (elements tm). \<exists>nearest.
              tet_centroid tm (int ti) = Inr (location (frames ! ti)) \<and>
              py_index boundary_frames
                (query (map location boundary_frames) (location (frames ! ti))) = Inr nearest \<and>
              u (frames ! ti) = u nearest \<and> v (frames ! ti) = v nearest \<and>
              w (frames ! ti) = w nearest)"
proof -
  from assms obtain bfs tree where
    bfs: "boundary_loop tet_centroid tm sm (List.enumerate 0 (faces sm)) [] = Inr bfs"
    and tree: "vstack (map location bfs) = Inr tree"
    and loop: "propagate_loop tet_centroid query tm bfs tree
      (List.enumerate 0 (elements tm)) [] = Inr frames"
    by (auto simp: init_framefield_def bnd_Inr_iff)
  from tree have tree_eq: "tree = map location bfs"
    by (simp add: vstack_def split: if_splits)
  from propagate_loop_Inr [OF loop] have
    all: "list_all2 (\<lambda>x f. propagate_tet tet_centroid query tm bfs tree (fst x) = Inr f)
      (List.enumerate 0 (elements tm)) frames"
    by simp
  then have len: "length frames = length (elements tm)"
    by (auto dest: list_all2_lengthD)
  have "\<exists>nearest.
      tet_centroid tm (int ti) = Inr (location (frames ! ti)) \<and>
      py_index bfs (query (map location bfs) (location (frames ! ti))) = Inr nearest \<and>
      u (frames ! ti) = u nearest \<and> v (frames ! ti) = v nearest \<and>
      w (frames ! ti) = w nearest" if "ti < length (elements tm)" for ti
  proof -
    from all that have "propagate_tet tet_centroid query tm bfs tree
        (fst (List.enumerate 0 (elements tm) ! ti)) = Inr (frames ! ti)"
      by (auto simp: list_all2_conv_all_nth)
    with that have "propagate_tet tet_centroid query tm bfs tree ti = Inr (frames ! ti)"
      by (simp add: nth_enumerate_eq)
    then obtain loc nearest where "tet_centroid tm (int ti) = Inr loc"
      "py_index bfs (query (map location bfs) loc) = Inr nearest"
      "frames ! ti = \<lparr>u = u nearest, v = v nearest, w = w nearest, location = loc\<rparr>"
      unfolding propagate_tet_def tree_eq by (auto simp: bnd_Inr_iff)
    then show ?thesis by simp
  qed
  with bfs len show ?thesis by blast
qed

theorem init_framefield_frames_witness:
  "init_framefield example_centroid example_query one_tet (one_face (1 / 10 ^ 12))
     = Inr [one_frame] \<and>
   (\<exists>boundary_frames.
      boundary_loop example_centroid one_tet (one_face (1 / 10 ^ 12))
        (List.enumerate 0 (faces (one_face (1 / 10 ^ 12)))) [] = Inr boundary_frames \<and>
      length [one_frame] = length (elements one_tet) \<and>
      (\<forall>ti<length (elements one_tet). \<exists>nearest.
         example_centroid one_tet (int ti) = Inr (location ([one_frame] ! ti)) \<and>
         py_index boundary_frames
           (example_query (map location boundary_frames) (location ([one_frame] ! ti)))
           = Inr nearest \<and>
         u ([one_frame] ! ti) = u nearest \<and> v ([one_frame] ! ti) = v nearest \<and>
         w ([one_frame] ! ti) = w nearest))"
  using init_framefield_frames [OF tiny_init] tiny_init by (intro conjI) assumption+

section \<open>Properties of compute\_onerings\<close>

lemma scan_neighbors_None:
  "scan_neighbors tm edge one_ring ns = Inr None \<Longrightarrow> n \<in> set ns \<Longrightarrow>
     n = - 1 \<or> n \<in> set one_ring \<or>
     (\<exists>neighbor. py_index (elements tm) n = Inr neighbor \<and>
        (fst edge \<notin> set neighbor \<or> snd edge \<notin> set neighbor))"
  by (induction ns) (auto split: sum.splits if_splits)

lemma walk_ring_Inr:
  "walk_ring tm edge one_ring = Inr ring \<Longrightarrow>
     \<exists>ext. ring = one_ring @ ext \<and> one_ring \<noteq> [] \<and>
       (distinct one_ring \<longrightarrow> distinct ring) \<and> - 1 \<notin> set ext \<and>
       (\<forall>n\<in>set ext. \<exists>neighbor. py_index (elements tm) n = Inr neighbor \<and>
          fst edge \<in> set neighbor \<and> snd edge \<in> set neighbor) \<and>
       (\<exists>ns. py_index (neighbors tm) (last ring) = Inr ns \<and>
          scan_neighbors tm edge ring ns = Inr None)"
proof (induction tm edge one_ring rule: walk_ring.induct)
  case (1 tm edge one_ring)
  from "1.prems" have ne: "one_ring \<noteq> []"
    by (subst (asm) walk_ring.simps) (auto split: if_splits)
  from "1.prems" ne obtain ns where ns: "py_index (neighbors tm) (last one_ring) = Inr ns"
    by (subst (asm) walk_ring.simps) (auto split: sum.splits)
  from "1.prems" ne ns obtain r where r: "scan_neighbors tm edge one_ring ns = Inr r"
    by (subst (asm) walk_ring.simps) (auto split: sum.splits)
  show ?case
  proof (cases r)
    case None
    with "1.prems" ne ns r have "ring = one_ring"
      by (subst (asm) walk_ring.simps) simp
    with ne ns r None show ?thesis by auto
  next
    case (Some n)
    with "1.prems" ne ns r have rec: "walk_ring tm edge (one_ring @ [n]) = Inr ring"
      by (subst (asm) walk_ring.simps) simp
    from "1.IH" [OF ne ns r Some rec] obtain ext where ext:
      "ring = (one_ring @ [n]) @ ext"
      "distinct (one_ring @ [n]) \<longrightarrow> distinct ring" "- 1 \<notin> set ext"
      "\<forall>n\<in>set ext. \<exists>neighbor. py_index (elements tm) n = Inr neighbor \<and>
          fst edge \<in> set neighbor \<and> snd edge \<in> set neighbor"
      "\<exists>ns. py_index (neighbors tm) (last ring) = Inr ns \<and>
          scan_neighbors tm edge ring ns = Inr None"
      by blast
    from scan_neighbors_Some [of tm edge one_ring ns n] r Some
    have n: "n \<noteq> - 1" "n \<notin> set one_ring"
      "\<exists>neighbor. py_index (elements tm) n = Inr neighbor \<and>
          fst edge \<in> set neighbor \<and> snd edge \<in> set neighbor"
      by simp_all
    have "ring = one_ring @ n # ext" using ext(1) by simp
    moreover have "distinct one_ring \<longrightarrow> distinct ring" using ext(2) n(2) by simp
    moreover have "- 1 \<notin> set (n # ext)" using ext(3) n(1) by auto
    moreover have "\<forall>n\<in>set (n # ext). \<exists>neighbor. py_index (elements tm) n = Inr neighbor \<and>
          fst edge \<in> set neighbor \<and> snd edge \<in> set neighbor"
      using ext(4) n(3) by simp
    ultimately show ?thesis using ne ext(5) by blast
  qed
qed

lemma onering_loop_Inr:
  "onering_loop tm sm xs acc = Inr one_rings \<Longrightarrow> distinct (map fst xs) \<Longrightarrow>
     (\<forall>x\<in>set xs. internal_edge sm (snd x) \<longrightarrow>
        (\<exists>seed ring. py_index (edge_adjacent_elements tm) (int (fst x)) = Inr seed \<and>
           walk_ring tm (snd x) [seed] = Inr ring \<and> one_rings (fst x) = Some ring)) \<and>
     (\<forall>ei. ei \<notin> fst ` {x \<in> set xs. internal_edge sm (snd x)} \<longrightarrow> one_rings ei = acc ei)"
proof (induction xs arbitrary: acc)
  case Nil
  then show ?case by simp
next
  case (Cons x xs)
  obtain ei edge where x: "x = (ei, edge)" by (cases x)
  from Cons.prems(2) have dist: "distinct (map fst xs)" and fresh: "ei \<notin> fst ` set xs"
    by (simp_all add: x)
  show ?case
  proof (cases "internal_edge sm edge")
    case False
    with Cons.prems(1) have "onering_loop tm sm xs acc = Inr one_rings"
      by (simp add: x internal_edge_def)
    from Cons.IH [OF this dist] False show ?thesis
      by (auto simp: x)
  next
    case True
    with Cons.prems(1) obtain seed ring where
      seed: "py_index (edge_adjacent_elements tm) (int ei) = Inr seed"
      and ring: "walk_ring tm edge [seed] = Inr ring"
      and rest: "onering_loop tm sm xs (acc(ei \<mapsto> ring)) = Inr one_rings"
      by (auto simp: x internal_edge_def split: sum.splits)
    note IH = Cons.IH [OF rest dist]
    from fresh have "ei \<notin> fst ` {x \<in> set xs. internal_edge sm (snd x)}" by auto
    with IH have here: "one_rings ei = Some ring" by simp
    have "one_rings k = acc k"
      if "k \<notin> fst ` {y \<in> set (x # xs). internal_edge sm (snd y)}" for k
    proof -
      have "(ei, edge) \<in> {y \<in> set (x # xs). internal_edge sm (snd y)}"
        using True by (simp add: x)
      then have "fst (ei, edge) \<in> fst ` {y \<in> set (x # xs). internal_edge sm (snd y)}"
        by (rule imageI)
      with that have "k \<noteq> ei" by auto
      moreover have "{y \<in> set xs. internal_edge sm (snd y)}
          \<subseteq> {y \<in> set (x # xs). internal_edge sm (snd y)}" by auto
      with that have "k \<notin> fst ` {y \<in> set xs. internal_edge sm (snd y)}" by blast
      ultimately show ?thesis using IH by simp
    qed
    moreover have "\<exists>seed ring. py_index (edge_adjacent_elements tm) (int (fst y)) = Inr seed \<and>
           walk_ring tm (snd y) [seed] = Inr ring \<and> one_rings (fst y) = Some ring"
      if "y \<in> set (x # xs)" "internal_edge sm (snd y)" for y
      using that IH seed ring here by (auto simp: x)
    ultimately show ?thesis by blast
  qed
qed

text \<open>The only exception of \<open>compute_onerings\<close> is the IndexError of a subscript.\<close>

lemma scan_neighbors_Inl: "scan_neighbors tm edge one_ring ns = Inl e \<Longrightarrow> e = IndexError"
  by (induction ns) (auto split: sum.splits if_splits dest: py_index_Inl)

lemma walk_ring_Inl: "walk_ring tm edge one_ring = Inl e \<Longrightarrow> e = IndexError"
proof (induction tm edge one_ring rule: walk_ring.induct)
  case (1 tm edge one_ring)
  show ?case
  proof (cases "one_ring = []")
    case True
    with "1.prems" show ?thesis by (simp add: walk_ring.simps)
  next
    case False
    show ?thesis
    proof (cases "py_index (neighbors tm) (last one_ring)")
      case (Inl e')
      with "1.prems" False show ?thesis
        by (auto simp: walk_ring.simps dest: py_index_Inl)
    next
      case ns: (Inr ns)
      show ?thesis
      proof (cases "scan_neighbors tm edge one_ring ns")
        case (Inl e')
        with "1.prems" False ns show ?thesis
          by (auto simp: walk_ring.simps dest: scan_neighbors_Inl)
      next
        case r: (Inr r)
        show ?thesis
        proof (cases r)
          case None
          with "1.prems" False ns r show ?thesis by (simp add: walk_ring.simps)
        next
          case (Some n)
          with "1.prems" False ns r have "walk_ring tm edge (one_ring @ [n]) = Inl e"
            by (simp add: walk_ring.simps)
          with "1.IH" [OF False ns r Some] show ?thesis .
        qed
      qed
    qed
  qed
qed

lemma onering_loop_Inl: "onering_loop tm sm xs acc = Inl e \<Longrightarrow> e = IndexError"
proof (induction xs arbitrary: acc)
  case Nil
  then show ?case by simp
next
  case (Cons x xs)
  obtain ei edge where x: "x = (ei, edge)" by (cases x)
  from Cons.prems Cons.IH show ?case
    by (auto simp: x split: if_splits sum.splits dest: py_index_Inl walk_ring_Inl)
qed

lemma compute_onerings_Inl: "compute_onerings tm sm = Inl e \<Longrightarrow> e = IndexError"
  unfolding compute_onerings_def by (rule onering_loop_Inl)

lemma distinct_enumerate_fst: "distinct (map fst (List.enumerate n xs))"
  by (simp add: enumerate_eq_zip)

subsection \<open>The fan example, evaluated\<close>

lemma open_fan_walk: "walk_ring open_fan (0, 1) [0] = Inr [0, 1]"
  by (simp add: walk_ring.simps open_fan_def py_index_def)

lemma open_fan_computed: "compute_onerings open_fan no_surface = Inr open_fan_rings"
  using open_fan_walk
  by (simp add: compute_onerings_def no_surface_def open_fan_def py_index_def open_fan_rings_def)

lemma open_fan_ring_0: "open_fan_rings 0 = Some [0, 1]"
  by (simp add: open_fan_rings_def)

subsection \<open>The shape of a recorded ring\<close>

text \<open>
  Claim C9. Every ring that \<open>compute_onerings\<close> records belongs to an edge that passed
  the test of line 62, is not empty, starts with the tetrahedron that
  \<open>edge_adjacent_elements\<close> holds for the edge, and repeats no index; the sentinel
  \<open>-1\<close> does not occur after its first entry, and every entry after the first is the
  index of an element row that holds both endpoints of the edge.
\<close>

theorem compute_onerings_ring:
  assumes "compute_onerings tm sm = Inr one_rings"
    and "one_rings ei = Some ring"
  shows "ei < length (edges tm) \<and> internal_edge sm (edges tm ! ei) \<and>
         ring \<noteq> [] \<and> py_index (edge_adjacent_elements tm) (int ei) = Inr (hd ring) \<and>
         distinct ring \<and> - 1 \<notin> set (tl ring) \<and>
         (\<forall>n\<in>set (tl ring). \<exists>neighbor. py_index (elements tm) n = Inr neighbor \<and>
            fst (edges tm ! ei) \<in> set neighbor \<and> snd (edges tm ! ei) \<in> set neighbor)"
proof -
  let ?xs = "List.enumerate 0 (edges tm)"
  from assms(1) have loop: "onering_loop tm sm ?xs Map.empty = Inr one_rings"
    by (simp add: compute_onerings_def)
  note L = onering_loop_Inr [OF loop distinct_enumerate_fst]
  have "ei \<in> fst ` {x \<in> set ?xs. internal_edge sm (snd x)}"
  proof (rule ccontr)
    assume "ei \<notin> fst ` {x \<in> set ?xs. internal_edge sm (snd x)}"
    with L [THEN conjunct2, rule_format, of ei] have "one_rings ei = None" by simp
    with assms(2) show False by simp
  qed
  then obtain x where x: "x \<in> set ?xs" "internal_edge sm (snd x)" "fst x = ei"
    by auto
  from x(1,3) have ei: "ei < length (edges tm)" and sx: "snd x = edges tm ! ei"
    by (auto simp: in_set_conv_nth nth_enumerate_eq)
  from L [THEN conjunct1, rule_format, OF x(1,2)]
  obtain seed ring' where seed: "py_index (edge_adjacent_elements tm) (int ei) = Inr seed"
    and walk: "walk_ring tm (edges tm ! ei) [seed] = Inr ring'" and "one_rings ei = Some ring'"
    unfolding sx x(3) by auto
  with assms(2) have "ring' = ring" by simp
  with walk have walk: "walk_ring tm (edges tm ! ei) [seed] = Inr ring" by simp
  from walk_ring_Inr [OF walk] obtain ext where ext: "ring = [seed] @ ext"
    "distinct [seed] \<longrightarrow> distinct ring" "- 1 \<notin> set ext"
    "\<forall>n\<in>set ext. \<exists>neighbor. py_index (elements tm) n = Inr neighbor \<and>
          fst (edges tm ! ei) \<in> set neighbor \<and> snd (edges tm ! ei) \<in> set neighbor"
    by blast
  from ext(1) have "hd ring = seed" "tl ring = ext" "ring \<noteq> []" by simp_all
  with ext seed ei x(2) sx show ?thesis by simp
qed

theorem compute_onerings_ring_witness:
  "compute_onerings open_fan no_surface = Inr open_fan_rings \<and>
   (\<exists>ring. open_fan_rings 0 = Some ring \<and>
      0 < length (edges open_fan) \<and> internal_edge no_surface (edges open_fan ! 0) \<and>
      ring \<noteq> [] \<and> py_index (edge_adjacent_elements open_fan) (int 0) = Inr (hd ring) \<and>
      distinct ring \<and> - 1 \<notin> set (tl ring) \<and>
      (\<forall>n\<in>set (tl ring). \<exists>neighbor. py_index (elements open_fan) n = Inr neighbor \<and>
         fst (edges open_fan ! 0) \<in> set neighbor \<and> snd (edges open_fan ! 0) \<in> set neighbor))"
  using compute_onerings_ring [OF open_fan_computed open_fan_ring_0] open_fan_computed
    open_fan_ring_0
  by blast

subsection \<open>A ring that does not close\<close>

text \<open>
  Claim C5, as the code has it. For every edge that passes the test of line 62, a
  completed \<open>compute_onerings\<close> records the ring at which the walk stopped: a non-empty
  ring such that every neighbour of its last tetrahedron is the sentinel, is in the
  ring already, or lacks an endpoint of the edge. Nothing else is checked: whether the
  ring closes, or holds every tetrahedron around the edge, plays no part.
\<close>

theorem compute_onerings_records_stuck_ring:
  assumes "compute_onerings tm sm = Inr one_rings"
    and "ei < length (edges tm)"
    and "internal_edge sm (edges tm ! ei)"
  shows "\<exists>ring ns. one_rings ei = Some ring \<and> ring \<noteq> [] \<and>
           py_index (neighbors tm) (last ring) = Inr ns \<and>
           (\<forall>n\<in>set ns. n = - 1 \<or> n \<in> set ring \<or>
              (\<exists>neighbor. py_index (elements tm) n = Inr neighbor \<and>
                 (fst (edges tm ! ei) \<notin> set neighbor \<or> snd (edges tm ! ei) \<notin> set neighbor)))"
proof -
  let ?xs = "List.enumerate 0 (edges tm)"
  from assms(1) have loop: "onering_loop tm sm ?xs Map.empty = Inr one_rings"
    by (simp add: compute_onerings_def)
  note L = onering_loop_Inr [OF loop distinct_enumerate_fst]
  from assms(2) have "(ei, edges tm ! ei) \<in> set ?xs"
    by (auto simp: in_set_conv_nth nth_enumerate_eq intro!: exI [of _ ei])
  from L [THEN conjunct1, rule_format, OF this] assms(3) obtain seed ring where
    walk: "walk_ring tm (edges tm ! ei) [seed] = Inr ring" and ring: "one_rings ei = Some ring"
    by auto
  from walk_ring_Inr [OF walk] obtain ns where ne: "ring \<noteq> []"
    and ns: "py_index (neighbors tm) (last ring) = Inr ns"
    and stuck: "scan_neighbors tm (edges tm ! ei) ring ns = Inr None"
    by auto
  from scan_neighbors_None [OF stuck] ring ne ns show ?thesis
    by blast
qed

theorem compute_onerings_records_stuck_ring_witness:
  "compute_onerings open_fan no_surface = Inr open_fan_rings \<and>
   0 < length (edges open_fan) \<and> internal_edge no_surface (edges open_fan ! 0) \<and>
   (\<exists>ring ns. open_fan_rings 0 = Some ring \<and> ring \<noteq> [] \<and>
      py_index (neighbors open_fan) (last ring) = Inr ns \<and>
      (\<forall>n\<in>set ns. n = - 1 \<or> n \<in> set ring \<or>
         (\<exists>neighbor. py_index (elements open_fan) n = Inr neighbor \<and>
            (fst (edges open_fan ! 0) \<notin> set neighbor \<or>
             snd (edges open_fan ! 0) \<notin> set neighbor))))"
proof -
  have len: "0 < length (edges open_fan)"
    by (simp add: open_fan_def)
  have internal: "internal_edge no_surface (edges open_fan ! 0)"
    by (simp add: internal_edge_def no_surface_def)
  from compute_onerings_records_stuck_ring [OF open_fan_computed len internal]
    open_fan_computed len internal
  show ?thesis by (intro conjI) assumption+
qed

text \<open>
  The claim as it is written fails on the fan: tetrahedron 2 holds both endpoints of
  the edge, the walk from tetrahedron 0 stops after tetrahedron 1, and the ring
  \<open>[0, 1]\<close> is recorded with no error.
\<close>

theorem compute_onerings_partial_ring:
  "compute_onerings open_fan no_surface = Inr open_fan_rings \<and>
   open_fan_rings 0 = Some [0, 1] \<and>
   py_index (elements open_fan) 2 = Inr [0, 1, 2, 5] \<and>
   fst (edges open_fan ! 0) \<in> set [0, 1, 2, 5] \<and> snd (edges open_fan ! 0) \<in> set [0, 1, 2, 5] \<and>
   (2 :: int) \<notin> set [0, 1]"
  using open_fan_computed open_fan_ring_0 by (simp add: open_fan_def py_index_def)

section \<open>Properties of singular\_graph\<close>

subsection \<open>The score and the selection\<close>

lemma vec_dot_mat_T: "vec_dot_mat x (mat_T R) = mat_vec R x"
  by (cases R rule: mat_T.cases; cases x) (simp add: mult.commute)

lemma residual_spec: "linalg_norm (residual fi fj R) = spec_score fi fj R"
proof -
  have "vsub (vadd (vsub (vadd (vsub a a') b) b') c) c'
      = vadd (vadd (vsub a a') (vsub b b')) (vsub c c')" for a a' b b' c c' :: vec
    by (cases a; cases a'; cases b; cases b'; cases c; cases c') simp
  then show ?thesis
    by (simp add: residual_def spec_score_def vec_dot_mat_T)
qed

lemma argmin_from_first_minimum:
  assumes "best < length pre" "pre ! best = bv"
    and "\<forall>j<length pre. bv \<le> pre ! j" "\<forall>j<best. bv < pre ! j"
  shows "first_minimum (pre @ xs) (argmin_from best bv (length pre) xs)"
  using assms
proof (induction xs arbitrary: pre best bv)
  case Nil
  then show ?case by (simp add: first_minimum_def)
next
  case (Cons x xs)
  show ?case
  proof (cases "x < bv")
    case True
    have "first_minimum ((pre @ [x]) @ xs) (argmin_from (length pre) x (length (pre @ [x])) xs)"
    proof (rule Cons.IH)
      have below: "x < pre ! j" if "j < length pre" for j
      proof -
        from Cons.prems(3) that have "bv \<le> pre ! j" by simp
        with True show ?thesis by simp
      qed
      show "\<forall>j<length (pre @ [x]). x \<le> (pre @ [x]) ! j"
        using below by (auto simp: nth_append less_Suc_eq intro: less_imp_le)
      show "\<forall>j<length pre. x < (pre @ [x]) ! j"
        using below by (simp add: nth_append)
    qed simp_all
    with True show ?thesis by simp
  next
    case False
    have "first_minimum ((pre @ [x]) @ xs) (argmin_from best bv (length (pre @ [x])) xs)"
    proof (rule Cons.IH)
      show "best < length (pre @ [x])" using Cons.prems(1) by simp
      show "(pre @ [x]) ! best = bv" using Cons.prems(1,2) by (simp add: nth_append)
      show "\<forall>j<length (pre @ [x]). bv \<le> (pre @ [x]) ! j"
        using False Cons.prems(3) by (auto simp: nth_append less_Suc_eq)
      show "\<forall>j<best. bv < (pre @ [x]) ! j"
        using Cons.prems(1,4) by (auto simp: nth_append)
    qed
    with False show ?thesis by simp
  qed
qed

lemma argmin_first_minimum: "argmin xs = Inr k \<Longrightarrow> first_minimum xs k"
proof (cases xs)
  case Nil
  assume "argmin xs = Inr k"
  with Nil show ?thesis by simp
next
  case (Cons x xs')
  assume "argmin xs = Inr k"
  with Cons have k: "k = argmin_from 0 x (length [x]) xs'" by simp
  have "first_minimum ([x] @ xs') (argmin_from 0 x (length [x]) xs')"
    by (rule argmin_from_first_minimum) simp_all
  with k Cons show ?thesis by simp
qed

lemma first_minimum_unique: "first_minimum xs k \<Longrightarrow> first_minimum xs l \<Longrightarrow> k = l"
  unfolding first_minimum_def
  by (metis linorder_neqE_nat not_le)

lemma args_loop_Inr:
  "args_loop frames pair syms acc = Inr args \<Longrightarrow> syms \<noteq> [] \<Longrightarrow>
     \<exists>fi fj. py_index frames (fst pair) = Inr fi \<and> py_index frames (snd pair) = Inr fj \<and>
       args = acc @ map (spec_score fi fj) syms"
proof (induction syms arbitrary: acc)
  case Nil
  then show ?case by simp
next
  case (Cons R syms)
  from Cons.prems(1) obtain fi fj where fi: "py_index frames (fst pair) = Inr fi"
    and fj: "py_index frames (snd pair) = Inr fj"
    and rest: "args_loop frames pair syms (acc @ [spec_score fi fj R]) = Inr args"
    by (auto simp: residual_spec split: sum.splits)
  show ?case
  proof (cases "syms = []")
    case True
    with rest fi fj show ?thesis by simp
  next
    case False
    from Cons.IH [OF rest False] fi fj show ?thesis by simp
  qed
qed

lemma args_loop_empty: "args_loop frames pair [] acc = Inr acc"
  by simp

lemma best_matching_Inr:
  assumes "best_matching syms frames pair = Inr m"
  shows "\<exists>fi fj k. py_index frames (fst pair) = Inr fi \<and> py_index frames (snd pair) = Inr fj \<and>
           first_minimum (map (spec_score fi fj) syms) k \<and> m = syms ! k"
proof -
  from assms obtain args k where args: "args_loop frames pair syms [] = Inr args"
    and k: "argmin args = Inr k" and m: "py_index syms (int k) = Inr m"
    by (auto simp: best_matching_def bnd_Inr_iff)
  have ne: "syms \<noteq> []"
  proof
    assume "syms = []"
    with args k show False by simp
  qed
  from args_loop_Inr [OF args ne] obtain fi fj where fi: "py_index frames (fst pair) = Inr fi"
    and fj: "py_index frames (snd pair) = Inr fj" and eq: "args = map (spec_score fi fj) syms"
    by auto
  from argmin_first_minimum [OF k] have fm: "first_minimum (map (spec_score fi fj) syms) k"
    by (simp add: eq)
  then have "k < length syms" by (simp add: first_minimum_def)
  with m have "m = syms ! k" by (simp add: py_index_def)
  with fi fj fm show ?thesis by blast
qed

lemma best_matching_total:
  assumes "py_index frames (fst pair) = Inr fi" "py_index frames (snd pair) = Inr fj" "syms \<noteq> []"
  shows "\<exists>m. best_matching syms frames pair = Inr m"
proof -
  have loop: "args_loop frames pair ss acc = Inr (acc @ map (spec_score fi fj) ss)" for ss acc
    using assms(1,2) by (induction ss arbitrary: acc) (simp_all add: residual_spec)
  obtain x xs where "map (spec_score fi fj) syms = x # xs"
    using assms(3) by (cases syms) auto
  then obtain k where k: "argmin (map (spec_score fi fj) syms) = Inr k" by simp
  from argmin_first_minimum [OF k] have "k < length syms" by (simp add: first_minimum_def)
  then have "py_index syms (int k) = Inr (syms ! k)" by (simp add: py_index_def)
  with loop [of syms "[]"] k have "best_matching syms frames pair = Inr (syms ! k)"
    by (simp add: best_matching_def bnd_simps)
  then show ?thesis by (rule exI)
qed

lemma matching_loop_Inr:
  "matching_loop syms frames adj acc = Inr matchings \<Longrightarrow>
     matchings key =
       (if key \<in> set adj \<and> fst key \<noteq> - 1 \<and> snd key \<noteq> - 1
        then (case best_matching syms frames key of Inl e \<Rightarrow> None | Inr m \<Rightarrow> Some m)
        else acc key) \<and>
     (key \<in> set adj \<and> fst key \<noteq> - 1 \<and> snd key \<noteq> - 1 \<longrightarrow>
        (\<exists>m. best_matching syms frames key = Inr m))"
proof (induction adj arbitrary: acc)
  case Nil
  then show ?case by simp
next
  case (Cons pair adj)
  show ?case
  proof (cases "fst pair = - 1 \<or> snd pair = - 1")
    case True
    with Cons.prems have "matching_loop syms frames adj acc = Inr matchings" by simp
    from Cons.IH [OF this] True show ?thesis by (auto simp del: split_paired_Ex)
  next
    case False
    with Cons.prems obtain m where m: "best_matching syms frames pair = Inr m"
      and rest: "matching_loop syms frames adj (acc(pair \<mapsto> m)) = Inr matchings"
      by (auto split: sum.splits)
    from Cons.IH [OF rest] m False show ?thesis by (auto simp del: split_paired_Ex)
  qed
qed

subsection \<open>The examples of matchings, evaluated\<close>

lemma py_index_simps:
  "py_index (x # xs) 0 = Inr x"
  "py_index (x # y # xs) 1 = Inr y"
  "py_index (x # y # z # xs) 2 = Inr z"
  by (simp_all add: py_index_def)

lemma best_a_b: "best_matching rotations24 three_tets_frames (0, 1) = Inr quarter_z"
  by (simp add: best_matching_def rotations24_def py_index_simps residual_def frame_a_def
      frame_b_def bnd_simps py_index_def quarter_z_def three_tets_frames_def)

lemma best_b_b: "best_matching rotations24 three_tets_frames (1, 2) = Inr identity3"
  by (simp add: best_matching_def rotations24_def py_index_simps residual_def frame_a_def
      frame_b_def bnd_simps py_index_def identity3_def three_tets_frames_def)

lemma best_a_b2: "best_matching rotations24 three_tets_frames (0, 2) = Inr quarter_z"
  by (simp add: best_matching_def rotations24_def py_index_simps residual_def frame_a_def
      frame_b_def bnd_simps py_index_def quarter_z_def three_tets_frames_def)



lemma three_tets_matchings:
  "matching_loop rotations24 three_tets_frames (adjacent_elements three_tets) Map.empty
     = Inr three_tets_table"
  by (simp add: three_tets_def best_a_b best_b_b best_a_b2 three_tets_table_def)


lemma quarter_z_inv: "linalg_inv quarter_z = Inr (mat_T quarter_z)"
  by (simp add: linalg_inv_def quarter_z_def)




subsection \<open>The matching of a pair\<close>



subsection \<open>The table of matchings\<close>

text \<open>
  Claim C10. Every matching in the table is an element of \<open>chiral_symmetries\<close>, taken by
  index, and every key of the table is a pair of \<open>adjacent_elements\<close> neither entry of
  which is the sentinel \<open>-1\<close>.
\<close>

theorem matchings_from_list:
  assumes "matching_loop chiral_symmetries frames (adjacent_elements tm) Map.empty = Inr matchings"
    and "matchings key = Some m"
  shows "key \<in> set (adjacent_elements tm) \<and> fst key \<noteq> - 1 \<and> snd key \<noteq> - 1 \<and>
         (\<exists>k<length chiral_symmetries. m = chiral_symmetries ! k)"
proof -
  note L = matching_loop_Inr [OF assms(1), of key]
  have key: "key \<in> set (adjacent_elements tm) \<and> fst key \<noteq> - 1 \<and> snd key \<noteq> - 1"
  proof (rule ccontr)
    assume "\<not> ?thesis"
    with L have "matchings key = None" by simp
    with assms(2) show False by simp
  qed
  with L assms(2) have "best_matching chiral_symmetries frames key = Inr m"
    by (auto simp del: split_paired_Ex split: sum.splits)
  from best_matching_Inr [OF this] obtain k where
    "k < length chiral_symmetries" "m = chiral_symmetries ! k"
    by (auto simp: first_minimum_def simp del: split_paired_Ex)
  with key show ?thesis by blast
qed

theorem matchings_from_list_witness:
  "matching_loop rotations24 three_tets_frames (adjacent_elements three_tets) Map.empty
     = Inr three_tets_table \<and>
   three_tets_table (0, 2) = Some quarter_z \<and>
   (0, 2) \<in> set (adjacent_elements three_tets) \<and>
   fst (0 :: int, 2 :: int) \<noteq> - 1 \<and> snd (0 :: int, 2 :: int) \<noteq> - 1 \<and>
   (\<exists>k<length rotations24. quarter_z = rotations24 ! k)"
proof -
  have stored: "three_tets_table (0, 2) = Some quarter_z"
    by (simp add: three_tets_table_def)
  from matchings_from_list [OF three_tets_matchings stored] three_tets_matchings stored
  show ?thesis by (intro conjI) simp_all
qed

subsection \<open>The step of the walk around a ring\<close>

text \<open>
  Claim C1, which the code does not meet. When the pair \<open>(ring[i+1], ring[i])\<close> is not
  in the table and the reversed pair is, with an invertible matrix, the step inverts
  the stored matrix into \<open>matching\<close> and then multiplies the accumulator by
  \<^verbatim>\<open>matchings[pair]\<close>, the stored matrix itself: the inverse is computed and dropped.
\<close>

theorem concat_step_reversed_pair:
  assumes "matchings (one_ring ! ((i + 1) mod length one_ring), one_ring ! i) = None"
    and "matchings (one_ring ! i, one_ring ! ((i + 1) mod length one_ring)) = Some stored"
    and "linalg_inv stored = Inr inverted"
  shows "concat_step matchings one_ring i etype = Inr (mat_dot etype stored)"
  using assms by (simp add: concat_step_def dict_get_def bnd_simps Let_def)

theorem concat_step_reversed_pair_witness:
  "three_tets_table ([0, 1, 2] ! ((0 + 1) mod length [0, 1, 2 :: int]), [0, 1, 2] ! 0) = None \<and>
   three_tets_table ([0, 1, 2] ! 0, [0, 1, 2] ! ((0 + 1) mod length [0, 1, 2 :: int]))
     = Some quarter_z \<and>
   linalg_inv quarter_z = Inr (mat_T quarter_z) \<and>
   concat_step three_tets_table [0, 1, 2] 0 identity3 = Inr (mat_dot identity3 quarter_z) \<and>
   mat_dot identity3 quarter_z \<noteq> mat_dot identity3 (mat_T quarter_z)"
proof -
  have absent:
    "three_tets_table ([0, 1, 2] ! ((0 + 1) mod length [0, 1, 2 :: int]), [0, 1, 2] ! 0) = None"
    by (simp add: three_tets_table_def)
  have stored:
    "three_tets_table ([0, 1, 2] ! 0, [0, 1, 2] ! ((0 + 1) mod length [0, 1, 2 :: int]))
       = Some quarter_z"
    by (simp add: three_tets_table_def)
  have differ: "mat_dot identity3 quarter_z \<noteq> mat_dot identity3 (mat_T quarter_z)"
    by (simp add: identity3_def quarter_z_def)
  from concat_step_reversed_pair [OF absent stored quarter_z_inv, of identity3]
    absent stored quarter_z_inv differ
  show ?thesis by (intro conjI) assumption+
qed

subsection \<open>The list of singular edges\<close>






section \<open>The matching of a pair and of the reversed pair\<close>

subsection \<open>Orthogonal matrices and the score\<close>

















lemma mat_scale_1: "mat_scale 1 A = A"
  by (cases A rule: mat_T.cases) simp


subsection \<open>Two candidates with the same score\<close>




lemma first_minimum_least:
  assumes "first_minimum (map f xs) k"
    and "\<forall>R\<in>set xs. (P R \<longrightarrow> f R = c) \<and> (\<not> P R \<longrightarrow> c < f R)"
    and "\<exists>R\<in>set xs. P R"
  shows "k < length xs \<and> P (xs ! k) \<and> (\<forall>j<k. \<not> P (xs ! j))"
proof -
  from assms(1) have k: "k < length xs" and le: "\<forall>j<length xs. f (xs ! k) \<le> f (xs ! j)"
    and lt: "\<forall>j<k. f (xs ! k) < f (xs ! j)"
    by (auto simp: first_minimum_def)
  from assms(3) obtain q where q: "q < length xs" "P (xs ! q)"
    by (auto simp: in_set_conv_nth)
  with assms(2) have fq: "f (xs ! q) = c" by simp
  have Pk: "P (xs ! k)"
  proof (rule ccontr)
    assume "\<not> P (xs ! k)"
    with assms(2) k have "c < f (xs ! k)" by simp
    with le q(1) fq show False by force
  qed
  with assms(2) k have fk: "f (xs ! k) = c" by simp
  have "\<not> P (xs ! j)" if "j < k" for j
  proof
    assume "P (xs ! j)"
    with assms(2) that k have "f (xs ! j) = c" by simp
    with lt that fk show False by force
  qed
  with k Pk show ?thesis by blast
qed

text \<open>
  The scores of the two frames, in either direction, are 1 at the two rotations by a
  third of a turn and greater at the other 22: in whatever order the list holds the 24
  rotations, both directions select the same one of the two, which is not its own
  transpose.
\<close>

lemma tie_scores:
  "\<forall>R\<in>set rotations24.
     (R = third_turn \<or> R = mat_T third_turn \<longrightarrow>
        spec_score frame_c frame_d R = 1 \<and> spec_score frame_d frame_c R = 1) \<and>
     (\<not> (R = third_turn \<or> R = mat_T third_turn) \<longrightarrow>
        1 < spec_score frame_c frame_d R \<and> 1 < spec_score frame_d frame_c R)"
  by (simp add: rotations24_def third_turn_def spec_score_def frame_c_def frame_d_def)

lemma tie_any_order:
  assumes "set syms = set rotations24"
  shows "\<exists>m. best_matching syms tie_frames (0, 1) = Inr m \<and>
           best_matching syms tie_frames (1, 0) = Inr m \<and> mat_T m \<noteq> m"
proof -
  let ?P = "\<lambda>R. R = third_turn \<or> R = mat_T third_turn"
  have ne: "syms \<noteq> []"
    using assms by (auto simp: rotations24_def)
  have c: "py_index tie_frames 0 = Inr frame_c" and d: "py_index tie_frames 1 = Inr frame_d"
    by (simp_all add: tie_frames_def py_index_simps)
  from best_matching_total [of tie_frames "(0, 1)" frame_c frame_d syms] c d ne
  obtain m where m: "best_matching syms tie_frames (0, 1) = Inr m"
    by (auto simp del: split_paired_Ex)
  from best_matching_total [of tie_frames "(1, 0)" frame_d frame_c syms] c d ne
  obtain m' where m': "best_matching syms tie_frames (1, 0) = Inr m'"
    by (auto simp del: split_paired_Ex)
  from best_matching_Inr [OF m] c d obtain k where
    k: "first_minimum (map (spec_score frame_c frame_d) syms) k" "m = syms ! k"
    by (auto simp del: split_paired_Ex)
  from best_matching_Inr [OF m'] c d obtain l where
    l: "first_minimum (map (spec_score frame_d frame_c) syms) l" "m' = syms ! l"
    by (auto simp del: split_paired_Ex)
  have ex: "\<exists>R\<in>set syms. ?P R"
    unfolding assms by (simp add: rotations24_def third_turn_def)
  have 1: "\<forall>R\<in>set syms. (?P R \<longrightarrow> spec_score frame_c frame_d R = 1) \<and>
      (\<not> ?P R \<longrightarrow> 1 < spec_score frame_c frame_d R)"
    unfolding assms using tie_scores by blast
  have 2: "\<forall>R\<in>set syms. (?P R \<longrightarrow> spec_score frame_d frame_c R = 1) \<and>
      (\<not> ?P R \<longrightarrow> 1 < spec_score frame_d frame_c R)"
    unfolding assms using tie_scores by blast
  note K = first_minimum_least [OF k(1) 1 ex] and L = first_minimum_least [OF l(1) 2 ex]
  have "k = l"
  proof (rule ccontr)
    assume "k \<noteq> l"
    then consider "k < l" | "l < k" by linarith
    then show False using K L by cases blast+
  qed
  with k(2) l(2) have same: "m' = m" by simp
  from K k(2) have "?P m" by simp
  then have "mat_T m \<noteq> m"
    by (auto simp: third_turn_def)
  with m m' same show ?thesis by (auto simp del: split_paired_Ex)
qed




subsection \<open>The transposed matching\<close>





end
